theory Spec2Isabelle
  imports Main
begin

section \<open>The CSV bulk-ingestion pipeline\<close>

text \<open>
  A shallow embedding of the upload pipeline of the service: \<^verbatim>\<open>readCSVChunk\<close>,
  \<^verbatim>\<open>processChunk\<close> and \<^verbatim>\<open>uploadCSV\<close>. The Go standard library and the database
  are outside the repository, so the model takes what they return as input:
  \<^item> the \<^verbatim>\<open>csv.Reader\<close> is the sequence of results of its successive \<^verbatim>\<open>Read\<close>
    calls, up to the first \<^verbatim>\<open>io.EOF\<close>;
  \<^item> \<^verbatim>\<open>strconv.Atoi\<close> and \<^verbatim>\<open>strconv.ParseFloat\<close> are parameters
    (\<open>None\<close> is a non-nil error);
  \<^item> \<^verbatim>\<open>DBHandler.CreateInBatches\<close> is a parameter returning the error, if any.
\<close>

subsection \<open>Data\<close>

type_synonym row = "string list"
type_synonym chunk = "row list"

text \<open>
  One result of \<^verbatim>\<open>reader.Read()\<close> that is not \<^verbatim>\<open>io.EOF\<close>: a record, or an error
  (a read error of the file or a format error of the CSV). The end of the list is
  \<^verbatim>\<open>io.EOF\<close>.
\<close>

datatype read_result = Rec row | Err

type_synonym csv_stream = "read_result list"

text \<open>
  What \<^verbatim>\<open>readCSVChunk\<close> has done when it returns: the chunks sent on \<^verbatim>\<open>ch\<close>, in
  order; whether \<^verbatim>\<open>ch\<close> was closed; whether \<^verbatim>\<open>Error reading CSV file\<close> was printed.
\<close>

record reader_outcome =
  sent :: "chunk list"
  closed :: bool
  read_error :: bool

text \<open>
  The run-time panics of the code; nothing recovers them, so each ends the process.
  \<^verbatim>\<open>record[i]\<close> with \<^verbatim>\<open>i\<close> out of range panics with
  \<^verbatim>\<open>index out of range [i] with length n\<close>, and \<^verbatim>\<open>make([][]string, 0, chunkSize)\<close>
  with a negative \<^verbatim>\<open>chunkSize\<close> with \<^verbatim>\<open>makeslice: cap out of range\<close>.
\<close>

datatype panic = IndexOutOfRange nat nat | MakesliceCapOutOfRange

subsection \<open>readCSVChunk\<close>

text \<open>
  The inner loop \<^verbatim>\<open>for i := 0; i < chunkSize; i++\<close> either returns from
  \<^verbatim>\<open>readCSVChunk\<close> (end of file or error) or falls through with a full buffer.
  \<open>out\<close> is what has been sent on the channel so far.
\<close>

datatype inner_loop = Return reader_outcome | Full chunk csv_stream

function fillChunk ::
  "int \<Rightarrow> int \<Rightarrow> chunk \<Rightarrow> csv_stream \<Rightarrow> chunk list \<Rightarrow> inner_loop" where
  "fillChunk chunkSize i records s out =
     (if i < chunkSize then
        (case s of
           [] \<Rightarrow>
             Return \<lparr>sent = (if length records > 0 then out @ [records] else out),
                     closed = True, read_error = False\<rparr>
         | Err # s' \<Rightarrow> Return \<lparr>sent = out, closed = True, read_error = True\<rparr>
         | Rec record # s' \<Rightarrow> fillChunk chunkSize (i + 1) (records @ [record]) s' out)
      else Full records s)"
  by pat_completeness auto
termination
  by (relation "measure (\<lambda>(chunkSize, i, records, s, out). nat (chunkSize - i))") auto

text \<open>
  The outer loop \<^verbatim>\<open>for { ... }\<close> has no exit of its own: each pass allocates the
  buffer with \<^verbatim>\<open>make\<close>, runs the inner loop and, unless that returned, sends the
  buffer. With \<^verbatim>\<open>chunkSize\<close> zero it runs forever. \<open>None\<close> is not returning.
\<close>

partial_function (option) readLoop ::
  "int \<Rightarrow> csv_stream \<Rightarrow> chunk list \<Rightarrow> (panic + reader_outcome) option" where
  "readLoop chunkSize s out =
     (if chunkSize < 0 then Some (Inl MakesliceCapOutOfRange)
      else case fillChunk chunkSize 0 [] s out of
        Return r \<Rightarrow> Some (Inr r)
      | Full records s' \<Rightarrow> readLoop chunkSize s' (out @ [records]))"

text \<open>
  \<^verbatim>\<open>_, _ = reader.Read()\<close> consumes one result, whatever it is, and drops it; at
  \<^verbatim>\<open>io.EOF\<close> there is nothing to consume.
\<close>

declare readLoop.simps [code]

definition readCSVChunk :: "csv_stream \<Rightarrow> int \<Rightarrow> (panic + reader_outcome) option" where
  "readCSVChunk file chunkSize = readLoop chunkSize (drop 1 file) []"

subsection \<open>processChunk\<close>

text \<open>
  \<^verbatim>\<open>UserData\<close>. \<open>'f\<close> is \<^verbatim>\<open>float64\<close>, which the code only stores. \<^verbatim>\<open>ID\<close> is never
  assigned by \<^verbatim>\<open>processChunk\<close> and keeps Go's zero value.
\<close>

record 'f UserData =
  ID :: int
  FirstName :: string
  LastName :: string
  Email :: string
  Age :: int
  Gender :: string
  Department :: string
  Company :: string
  Salary :: 'f
  DateJoined :: string
  IsActive :: bool

datatype reject = InvalidAge | InvalidSalary

text \<open>
  One pass of the body of \<^verbatim>\<open>for _, record := range records\<close>: a panic, or
  \<^verbatim>\<open>continue\<close> after printing \<^verbatim>\<open>Skipping record with invalid ...\<close>, or a
  \<^verbatim>\<open>UserData\<close> to append. The index expressions are evaluated in the order of the
  source: \<^verbatim>\<open>record[4]\<close>, then \<^verbatim>\<open>record[8]\<close>, then \<^verbatim>\<open>record[10]\<close>, then the fields
  of the struct literal, which are in range once \<^verbatim>\<open>record[10]\<close> is.
\<close>

datatype 'f parsed = Skipped reject | Built "'f UserData"

definition parseRecord ::
  "(string \<Rightarrow> int option) \<Rightarrow> (string \<Rightarrow> 'f option) \<Rightarrow> row \<Rightarrow> panic + 'f parsed" where
  "parseRecord atoi parseFloat record =
     (if \<not> 4 < length record then Inl (IndexOutOfRange 4 (length record))
      else case atoi (record ! 4) of
        None \<Rightarrow> Inr (Skipped InvalidAge)
      | Some age \<Rightarrow>
          if \<not> 8 < length record then Inl (IndexOutOfRange 8 (length record))
          else case parseFloat (record ! 8) of
            None \<Rightarrow> Inr (Skipped InvalidSalary)
          | Some salary \<Rightarrow>
              if \<not> 10 < length record then Inl (IndexOutOfRange 10 (length record))
              else
                let isActive = (record ! 10 = ''true'')
                in Inr (Built \<lparr>ID = 0,
                     FirstName = record ! 1, LastName = record ! 2, Email = record ! 3,
                     Age = age, Gender = record ! 5, Department = record ! 6,
                     Company = record ! 7, Salary = salary, DateJoined = record ! 9,
                     IsActive = isActive\<rparr>))"

text \<open>
  The \<^verbatim>\<open>range\<close> loop, with \<^verbatim>\<open>users\<close> and the skipped rows (each with the reason
  printed) accumulated in order.
\<close>

fun parseRecords ::
  "(string \<Rightarrow> int option) \<Rightarrow> (string \<Rightarrow> 'f option) \<Rightarrow> row list \<Rightarrow>
   'f UserData list \<Rightarrow> (reject \<times> row) list \<Rightarrow>
   panic + ('f UserData list \<times> (reject \<times> row) list)" where
  "parseRecords atoi parseFloat [] users skips = Inr (users, skips)"
| "parseRecords atoi parseFloat (record # rest) users skips =
     (case parseRecord atoi parseFloat record of
        Inl p \<Rightarrow> Inl p
      | Inr (Skipped why) \<Rightarrow> parseRecords atoi parseFloat rest users (skips @ [(why, record)])
      | Inr (Built u) \<Rightarrow> parseRecords atoi parseFloat rest (users @ [u]) skips)"

text \<open>
  What one \<^verbatim>\<open>processChunk\<close> has done when it returns: the \<^verbatim>\<open>users\<close> slice it built,
  the rows it skipped, the calls of \<^verbatim>\<open>CreateInBatches\<close> it made (arguments), and
  whether \<^verbatim>\<open>Database insertion error\<close> was printed.
\<close>

record 'f chunk_outcome =
  users :: "'f UserData list"
  skipped :: "(reject \<times> row) list"
  db_calls :: "('f UserData list \<times> int) list"
  insert_error :: bool

text \<open>
  \<^verbatim>\<open>processChunk\<close>. The wait group, the semaphore and \<^verbatim>\<open>runtime.GC()\<close> only
  synchronise and are not part of the result. \<open>dbHandler\<close> is \<^verbatim>\<open>CreateInBatches\<close>:
  \<open>Some\<close> is a non-nil error.
\<close>

definition processChunk ::
  "(string \<Rightarrow> int option) \<Rightarrow> (string \<Rightarrow> 'f option) \<Rightarrow> row list \<Rightarrow>
   ('f UserData list \<Rightarrow> int \<Rightarrow> string option) \<Rightarrow> int \<Rightarrow> panic + 'f chunk_outcome" where
  "processChunk atoi parseFloat records dbHandler batchSize =
     (case parseRecords atoi parseFloat records [] [] of
        Inl p \<Rightarrow> Inl p
      | Inr (us, skips) \<Rightarrow>
          if length us > 0 then
            Inr \<lparr>users = us, skipped = skips, db_calls = [(us, batchSize)],
                 insert_error = (dbHandler us batchSize \<noteq> None)\<rparr>
          else
            Inr \<lparr>users = us, skipped = skips, db_calls = [], insert_error = False\<rparr>)"

subsection \<open>uploadCSV\<close>

text \<open>
  The request, as far as \<^verbatim>\<open>uploadCSV\<close> looks at it: \<^verbatim>\<open>c.FormFile("file")\<close> fails,
  or \<^verbatim>\<open>fileHeader.Open()\<close> fails (each with the text of the error), or the file is
  there and the CSV reader will return the given results.
\<close>

datatype request = NoFile string | CannotOpen string | File csv_stream

text \<open>The response written by \<^verbatim>\<open>c.JSON\<close>: the status and the keys of \<^verbatim>\<open>gin.H\<close>.\<close>

record response =
  status :: nat
  body :: "(string \<times> string) list"

record 'f upload_outcome =
  reply :: response
  reader :: "reader_outcome option"
  workers :: "'f chunk_outcome list"

text \<open>
  The workers: one \<^verbatim>\<open>processChunk\<close> per chunk received from the channel. They run
  concurrently; the outcomes are listed in the order of the chunks and nothing is
  said about their interleaving. A panic in any of them ends the process.
\<close>

fun processChunks ::
  "(string \<Rightarrow> int option) \<Rightarrow> (string \<Rightarrow> 'f option) \<Rightarrow>
   ('f UserData list \<Rightarrow> int \<Rightarrow> string option) \<Rightarrow> int \<Rightarrow> chunk list \<Rightarrow>
   panic + 'f chunk_outcome list" where
  "processChunks atoi parseFloat dbHandler batchSize [] = Inr []"
| "processChunks atoi parseFloat dbHandler batchSize (records # rest) =
     (case processChunk atoi parseFloat records dbHandler batchSize of
        Inl p \<Rightarrow> Inl p
      | Inr r \<Rightarrow>
          (case processChunks atoi parseFloat dbHandler batchSize rest of
             Inl p \<Rightarrow> Inl p
           | Inr rs \<Rightarrow> Inr (r # rs)))"

text \<open>
  \<^verbatim>\<open>uploadCSV\<close>: \<open>None\<close> is not returning, \<open>Inl\<close> the process ended by a panic
  before any response was written.
\<close>

definition uploadCSV ::
  "(string \<Rightarrow> int option) \<Rightarrow> (string \<Rightarrow> 'f option) \<Rightarrow> request \<Rightarrow>
   ('f UserData list \<Rightarrow> int \<Rightarrow> string option) \<Rightarrow> (panic + 'f upload_outcome) option" where
  "uploadCSV atoi parseFloat c dbHandler =
     (case c of
        NoFile details \<Rightarrow>
          Some (Inr \<lparr>reply = \<lparr>status = 400,
                       body = [(''error'', ''Failed to get file''), (''details'', details)]\<rparr>,
                     reader = None, workers = []\<rparr>)
      | CannotOpen details \<Rightarrow>
          Some (Inr \<lparr>reply = \<lparr>status = 400,
                       body = [(''error'', ''Failed to open file''), (''details'', details)]\<rparr>,
                     reader = None, workers = []\<rparr>)
      | File file \<Rightarrow>
          (let chunkSize = 5000; batchSize = 10000 in
           case readCSVChunk file chunkSize of
             None \<Rightarrow> None
           | Some (Inl p) \<Rightarrow> Some (Inl p)
           | Some (Inr r) \<Rightarrow>
               (case processChunks atoi parseFloat dbHandler batchSize (sent r) of
                  Inl p \<Rightarrow> Some (Inl p)
                | Inr ws \<Rightarrow>
                    Some (Inr \<lparr>reply = \<lparr>status = 200,
                                 body = [(''message'',
                                   ''CSV file processed successfully and data stored in database.'')]\<rparr>,
                               reader = Some r, workers = ws\<rparr>))))"

subsection \<open>Vocabulary of the statements\<close>

text \<open>
  The rows the reader gets before the first error or the end of the file, and whether
  it is an error that stops it.
\<close>

fun leading_rows :: "csv_stream \<Rightarrow> row list" where
  "leading_rows [] = []"
| "leading_rows (Rec r # s) = r # leading_rows s"
| "leading_rows (Err # s) = []"

fun hits_error :: "csv_stream \<Rightarrow> bool" where
  "hits_error [] = False"
| "hits_error (Rec r # s) = hits_error s"
| "hits_error (Err # s) = True"

text \<open>
  The specification's chunking, written independently of the reader: cut a list into
  pieces of \<open>n\<close>, the last one shorter when the length is not a multiple of \<open>n\<close>.
\<close>

function chunksOf :: "nat \<Rightarrow> 'a list \<Rightarrow> 'a list list" where
  "chunksOf n xs = (if n = 0 \<or> xs = [] then [] else take n xs # chunksOf n (drop n xs))"
  by pat_completeness auto
termination
  by (relation "measure (\<lambda>(n, xs). length xs)") auto

declare chunksOf.simps [simp del]

text \<open>The longest prefix whose length is a multiple of \<open>n\<close>.\<close>

definition whole_chunks_prefix :: "nat \<Rightarrow> 'a list \<Rightarrow> 'a list" where
  "whole_chunks_prefix n xs = take (length xs - length xs mod n) xs"

text \<open>
  The age field parses as an integer and the salary field as a float; and the
  \<^verbatim>\<open>UserData\<close> that belongs to such a row.
\<close>

definition numeric_ok :: "(string \<Rightarrow> int option) \<Rightarrow> (string \<Rightarrow> 'f option) \<Rightarrow> row \<Rightarrow> bool" where
  "numeric_ok atoi parseFloat r \<longleftrightarrow> atoi (r ! 4) \<noteq> None \<and> parseFloat (r ! 8) \<noteq> None"

definition row_record ::
  "(string \<Rightarrow> int option) \<Rightarrow> (string \<Rightarrow> 'f option) \<Rightarrow> row \<Rightarrow> 'f UserData" where
  "row_record atoi parseFloat r =
     \<lparr>ID = 0, FirstName = r ! 1, LastName = r ! 2, Email = r ! 3,
      Age = the (atoi (r ! 4)), Gender = r ! 5, Department = r ! 6, Company = r ! 7,
      Salary = the (parseFloat (r ! 8)), DateJoined = r ! 9, IsActive = (r ! 10 = ''true'')\<rparr>"

text \<open>The reason printed for a row that is skipped.\<close>

definition reject_reason :: "(string \<Rightarrow> int option) \<Rightarrow> row \<Rightarrow> reject" where
  "reject_reason atoi r = (if atoi (r ! 4) = None then InvalidAge else InvalidSalary)"

text \<open>
  A stand-in for the two library parsers, to run the model on concrete rows: a
  non-empty string of decimal digits is its value, anything else is an error. It is
  applied below to short unsigned digit strings such as \<^verbatim>\<open>30\<close> and \<^verbatim>\<open>50000\<close> and to
  the word \<^verbatim>\<open>abc\<close> only, on which \<^verbatim>\<open>strconv.Atoi\<close> and \<^verbatim>\<open>strconv.ParseFloat\<close>
  return the same value or an error as well.
\<close>

fun digits :: "string \<Rightarrow> nat \<Rightarrow> nat option" where
  "digits [] n = Some n"
| "digits (ch # s) n =
     (let d = (of_char ch :: nat)
      in if 48 \<le> d \<and> d \<le> 57 then digits s (n * 10 + (d - 48)) else None)"

definition decimal :: "string \<Rightarrow> int option" where
  "decimal s = (if s = [] then None else map_option int (digits s 0))"

text \<open>The mock of the tests: \<^verbatim>\<open>CreateInBatches\<close> returns \<^verbatim>\<open>nil\<close>.\<close>

definition mockDB :: "int UserData list \<Rightarrow> int \<Rightarrow> string option" where
  "mockDB us batchSize = None"

text \<open>The rows and the header of the CSV in \<^verbatim>\<open>TestReadCSVChunk\<close> and \<^verbatim>\<open>TestUploadCSV\<close>.\<close>

definition header :: row where
  "header = [''ID'', ''FirstName'', ''LastName'', ''Email'', ''Age'', ''Gender'',
             ''Department'', ''Company'', ''Salary'', ''DateJoined'', ''IsActive'']"

definition john :: row where
  "john = [''1'', ''John'', ''Doe'', ''john@example.com'', ''30'', ''Male'', ''IT'',
           ''ExampleCorp'', ''50000'', ''2020-01-01'', ''true'']"

definition jane :: row where
  "jane = [''2'', ''Jane'', ''Doe'', ''jane@example.com'', ''28'', ''Female'', ''HR'',
           ''ExampleCorp'', ''45000'', ''2021-01-01'', ''true'']"

text \<open>
  Rows for the examples: a non-numeric salary, a non-numeric age, \<^verbatim>\<open>True\<close> for
  \<^verbatim>\<open>IsActive\<close>, empty identifying fields, and a CSV of three columns.
\<close>

definition bad_salary :: row where
  "bad_salary = [''3'', ''Ann'', ''Lee'', ''ann@example.com'', ''41'', ''Female'', ''HR'',
                 ''ExampleCorp'', ''abc'', ''2019-05-01'', ''true'']"

definition bad_age :: row where
  "bad_age = [''4'', ''Bob'', ''Ray'', ''bob@example.com'', ''abc'', ''Male'', ''IT'',
              ''ExampleCorp'', ''52000'', ''2018-03-01'', ''false'']"

definition nameless :: row where
  "nameless = [''5'', [], [], [], ''30'', ''Male'', ''IT'',
               ''ExampleCorp'', ''50000'', ''2020-01-01'', ''true'']"

definition short_header :: row where
  "short_header = [''ID'', ''FirstName'', ''LastName'']"

definition short_row :: row where
  "short_row = [''1'', ''John'', ''Doe'']"

definition success_reply :: response where
  "success_reply = \<lparr>status = 200,
     body = [(''message'', ''CSV file processed successfully and data stored in database.'')]\<rparr>"

section \<open>The reader\<close>

subsection \<open>Auxiliary facts\<close>

lemma fillChunk_char:
  "i < c \<Longrightarrow> fillChunk c i records s out =
     (if nat (c - i) \<le> length (leading_rows s)
      then Full (records @ take (nat (c - i)) (leading_rows s)) (drop (nat (c - i)) s)
      else if hits_error s then Return \<lparr>sent = out, closed = True, read_error = True\<rparr>
      else Return \<lparr>sent = (if records @ leading_rows s \<noteq> []
                             then out @ [records @ leading_rows s] else out),
                   closed = True, read_error = False\<rparr>)"
proof (induction s arbitrary: i records)
  case Nil
  then show ?case by simp
next
  case (Cons e s)
  show ?case
  proof (cases e)
    case Err
    with Cons.prems show ?thesis by simp
  next
    case (Rec r)
    show ?thesis
    proof (cases "i + 1 < c")
      case True
      have n: "nat (c - i) = Suc (nat (c - (i + 1)))" using True by simp
      have "fillChunk c i records (e # s) out = fillChunk c (i + 1) (records @ [r]) s out"
        using Cons.prems Rec by simp
      also note Cons.IH[OF True]
      finally show ?thesis
        unfolding n Rec by (simp del: fillChunk.simps)
    next
      case False
      with Cons.prems have "c = i + 1" by simp
      with Rec show ?thesis by simp
    qed
  qed
qed

lemma leading_rows_drop:
  "n \<le> length (leading_rows s) \<Longrightarrow> leading_rows (drop n s) = drop n (leading_rows s)"
proof (induction s arbitrary: n rule: leading_rows.induct)
  case (2 r s)
  then show ?case by (cases n) auto
qed auto

lemma hits_error_drop:
  "n \<le> length (leading_rows s) \<Longrightarrow> hits_error (drop n s) = hits_error s"
proof (induction s arbitrary: n rule: leading_rows.induct)
  case (2 r s)
  then show ?case by (cases n) auto
qed auto

lemma length_leading_rows: "length (leading_rows s) \<le> length s"
  by (induction s rule: leading_rows.induct) auto

lemma chunksOf_Nil [simp]: "chunksOf n [] = []"
  by (simp add: chunksOf.simps)

lemma chunksOf_short: "0 < n \<Longrightarrow> xs \<noteq> [] \<Longrightarrow> length xs \<le> n \<Longrightarrow> chunksOf n xs = [xs]"
  by (subst chunksOf.simps) simp

lemma chunksOf_step:
  "0 < n \<Longrightarrow> n \<le> length xs \<Longrightarrow> chunksOf n xs = take n xs # chunksOf n (drop n xs)"
  by (subst chunksOf.simps) auto

lemma whole_short: "length xs < n \<Longrightarrow> whole_chunks_prefix n xs = []"
  by (simp add: whole_chunks_prefix_def)

lemma whole_step:
  assumes "0 < n" "n \<le> length xs"
  shows "chunksOf n (whole_chunks_prefix n xs) =
         take n xs # chunksOf n (whole_chunks_prefix n (drop n xs))"
proof -
  let ?m = "length xs - length xs mod n"
  have mod_eq: "(length xs - n) mod n = length xs mod n"
    using assms by (simp add: le_mod_geq)
  have "length xs mod n \<le> length xs - n"
    using assms mod_eq by (metis mod_less_eq_dividend)
  then have m: "n \<le> ?m" using assms by linarith
  have len: "n \<le> length (take ?m xs)" using m by simp
  have "chunksOf n (take ?m xs) = take n (take ?m xs) # chunksOf n (drop n (take ?m xs))"
    by (rule chunksOf_step[OF assms(1) len])
  moreover have "take n (take ?m xs) = take n xs" using m by (simp add: min_def)
  moreover have "drop n (take ?m xs) =
      take (length (drop n xs) - length (drop n xs) mod n) (drop n xs)"
    using m mod_eq by (simp add: drop_take add.commute)
  ultimately show ?thesis by (simp add: whole_chunks_prefix_def)
qed

text \<open>
  The outer loop, for a positive chunk size: it returns, and what it has sent are
  the chunks of the rows read, without the incomplete last chunk when an error
  stopped it.
\<close>

lemma readLoop_char:
  assumes "0 < c"
  shows "readLoop c s out =
     Some (Inr \<lparr>sent = out @ chunksOf (nat c)
               (if hits_error s then whole_chunks_prefix (nat c) (leading_rows s)
                else leading_rows s),
           closed = True, read_error = hits_error s\<rparr>)"
proof (induction s arbitrary: out rule: length_induct)
  case (1 s)
  let ?n = "nat c"
  let ?L = "leading_rows s"
  have n: "0 < ?n" "nat (c - 0) = ?n" using assms by simp_all
  note fc = fillChunk_char[OF assms, of "[]" s out, unfolded n(2)]
  show ?case
  proof (cases "?n \<le> length ?L")
    case True
    have shorter: "length (drop ?n s) < length s"
      using True n(1) length_leading_rows[of s] by simp
    have "readLoop c s out = readLoop c (drop ?n s) (out @ [take ?n ?L])"
      using assms by (subst readLoop.simps) (simp add: fc True del: fillChunk.simps)
    also have "\<dots> = Some (Inr \<lparr>sent = (out @ [take ?n ?L]) @ chunksOf ?n
               (if hits_error (drop ?n s)
                then whole_chunks_prefix ?n (leading_rows (drop ?n s))
                else leading_rows (drop ?n s)),
           closed = True, read_error = hits_error (drop ?n s)\<rparr>)"
      using 1 shorter by blast
    finally show ?thesis
      using True n(1)
      by (simp add: leading_rows_drop hits_error_drop whole_step chunksOf_step)
  next
    case False
    then have short: "length ?L < ?n" by simp
    have one: "?L \<noteq> [] \<Longrightarrow> chunksOf ?n ?L = [?L]"
      using chunksOf_short[of ?n ?L] n(1) short by simp
    show ?thesis
      using assms
      by (subst readLoop.simps)
         (auto simp add: fc False whole_short[OF short] one simp del: fillChunk.simps)
  qed
qed

lemma leading_rows_map_Rec [simp]: "leading_rows (map Rec rows) = rows"
  by (induction rows) auto

lemma hits_error_map_Rec [simp]: "\<not> hits_error (map Rec rows)"
  by (induction rows) auto

lemma leading_rows_before_Err [simp]: "leading_rows (map Rec rows @ Err # rest) = rows"
  by (induction rows) auto

lemma hits_error_before_Err [simp]: "hits_error (map Rec rows @ Err # rest)"
  by (induction rows) auto

lemma concat_chunksOf: "0 < n \<Longrightarrow> concat (chunksOf n xs) = xs"
proof (induction n xs rule: chunksOf.induct)
  case (1 n xs)
  then show ?case by (subst chunksOf.simps) auto
qed

lemma chunksOf_lengths: "c \<in> set (chunksOf n xs) \<Longrightarrow> 0 < length c \<and> length c \<le> n"
proof (induction n xs rule: chunksOf.induct)
  case (1 n xs)
  show ?case
  proof (cases "n = 0 \<or> xs = []")
    case True
    with "1.prems" show ?thesis by (simp add: chunksOf.simps)
  next
    case False
    then have "chunksOf n xs = take n xs # chunksOf n (drop n xs)"
      by (subst chunksOf.simps) simp
    with "1.prems" have "c = take n xs \<or> c \<in> set (chunksOf n (drop n xs))" by simp
    then show ?thesis
    proof
      assume "c = take n xs"
      with False show ?thesis by simp
    next
      assume "c \<in> set (chunksOf n (drop n xs))"
      then show ?thesis by (rule "1.IH"[OF False])
    qed
  qed
qed

lemma chunksOf_butlast: "c \<in> set (butlast (chunksOf n xs)) \<Longrightarrow> length c = n"
proof (induction n xs rule: chunksOf.induct)
  case (1 n xs)
  show ?case
  proof (cases "n = 0 \<or> xs = []")
    case True
    with "1.prems" show ?thesis by (simp add: chunksOf.simps)
  next
    case False
    then have step: "chunksOf n xs = take n xs # chunksOf n (drop n xs)"
      by (subst chunksOf.simps) simp
    show ?thesis
    proof (cases "chunksOf n (drop n xs) = []")
      case True
      with "1.prems" step show ?thesis by simp
    next
      case ne: False
      then have "drop n xs \<noteq> []" by auto
      then have "n \<le> length xs" by simp
      with "1.prems" step ne "1.IH"[OF False] show ?thesis by auto
    qed
  qed
qed

lemma chunksOf_whole_partial:
  "0 < n \<Longrightarrow> chunksOf n xs = chunksOf n (whole_chunks_prefix n xs) @
     (if length xs mod n = 0 then [] else [drop (length xs - length xs mod n) xs])"
proof (induction n xs rule: chunksOf.induct)
  case (1 n xs)
  show ?case
  proof (cases "n \<le> length xs")
    case True
    then have ne: "\<not> (n = 0 \<or> xs = [])" using "1.prems" by auto
    have mod_eq: "(length xs - n) mod n = length xs mod n"
      using True by (simp add: le_mod_geq)
    have "length xs mod n \<le> length xs - n"
      using mod_eq by (metis mod_less_eq_dividend)
    then have d: "drop (length xs - n - length xs mod n) (drop n xs) = drop (length xs - length xs mod n) xs"
      using True by (simp add: add.commute)
    show ?thesis
      using "1.IH"[OF ne "1.prems"] True "1.prems" mod_eq d
      by (simp add: whole_step chunksOf_step)
  next
    case False
    then show ?thesis using "1.prems"
      by (cases "xs = []") (simp_all add: whole_short chunksOf_short)
  qed
qed

text \<open>
  With chunk size zero the inner loop reads nothing, an empty chunk is sent, and the
  outer loop starts again: \<^verbatim>\<open>readCSVChunk\<close> never returns. With a negative chunk
  size the first \<^verbatim>\<open>make\<close> panics.
\<close>

lemma readLoop_nonzero:
  assumes "readLoop chunkSize s out = Some r"
  shows "chunkSize \<noteq> 0"
proof (rule readLoop.raw_induct[where P = "\<lambda>cs s out r. cs \<noteq> 0"])
  show "readLoop chunkSize s out = Some r" by fact
next
  fix f cs s out y
  assume IH: "\<And>a b c y. f a b c = Some y \<Longrightarrow> a \<noteq> 0"
    and eq: "(if cs < 0 then Some (Inl MakesliceCapOutOfRange)
              else case fillChunk cs 0 [] s out of Return r \<Rightarrow> Some (Inr r)
              | Full records s' \<Rightarrow> f cs s' (out @ [records])) = Some y"
  show "cs \<noteq> 0"
  proof
    assume z: "cs = 0"
    then have "fillChunk cs 0 [] s out = Full [] s" by simp
    with eq z have "f cs s (out @ [[]]) = Some y" by simp
    from IH[OF this] z show False by simp
  qed
qed

lemma readLoop_diverges: "readLoop 0 s out = None"
  using readLoop_nonzero[of 0 s out] by (cases "readLoop 0 s out") auto

lemma readLoop_negative:
  "chunkSize < 0 \<Longrightarrow> readLoop chunkSize s out = Some (Inl MakesliceCapOutOfRange)"
  by (subst readLoop.simps) simp

lemma chunksOf_multiple:
  "n dvd length xs \<Longrightarrow> c \<in> set (chunksOf n xs) \<Longrightarrow> length c = n"
proof (induction n xs rule: chunksOf.induct)
  case (1 n xs)
  show ?case
  proof (cases "n = 0 \<or> xs = []")
    case True
    with "1.prems" show ?thesis by (simp add: chunksOf.simps)
  next
    case False
    then have le: "n \<le> length xs"
      using "1.prems"(1) by (auto dest: dvd_imp_le)
    have "chunksOf n xs = take n xs # chunksOf n (drop n xs)"
      using False by (subst chunksOf.simps) simp
    with "1.prems" have "c = take n xs \<or> c \<in> set (chunksOf n (drop n xs))" by simp
    then show ?thesis
    proof
      assume "c = take n xs"
      with le show ?thesis by simp
    next
      assume c: "c \<in> set (chunksOf n (drop n xs))"
      have "n dvd length (drop n xs)"
        using "1.prems"(1) le by simp
      from "1.IH"[OF False this c] show ?thesis .
    qed
  qed
qed

lemma whole_chunks_full:
  "c \<in> set (chunksOf n (whole_chunks_prefix n xs)) \<Longrightarrow> length c = n"
proof (rule chunksOf_multiple)
  have "length (whole_chunks_prefix n xs) = length xs - length xs mod n"
    by (simp add: whole_chunks_prefix_def)
  then show "n dvd length (whole_chunks_prefix n xs)"
    by simp
qed

lemma readCSVChunk_char:
  "0 < chunkSize \<Longrightarrow> readCSVChunk file chunkSize =
     Some (Inr \<lparr>sent = chunksOf (nat chunkSize)
               (if hits_error (drop 1 file)
                then whole_chunks_prefix (nat chunkSize) (leading_rows (drop 1 file))
                else leading_rows (drop 1 file)),
           closed = True, read_error = hits_error (drop 1 file)\<rparr>)"
  by (simp add: readCSVChunk_def readLoop_char)

subsection \<open>Chunks at the end of the file\<close>

text \<open>
  Claim C1. For a positive chunk size and a stream whose reads after the header all
  succeed, \<^verbatim>\<open>readCSVChunk\<close> returns, having dropped exactly the first read result
  (the header, whatever it was), sent the rows in file order in chunks of exactly
  \<open>chunkSize\<close> rows, the last chunk alone possibly shorter and never empty, and closed
  the channel. With chunk size 1 and two rows it sends two chunks of one row each, in
  row order.
\<close>

theorem readCSVChunk_emits_chunks:
  assumes "0 < chunkSize"
  shows "\<exists>chunks.
       readCSVChunk (h # map Rec rows) chunkSize =
         Some (Inr \<lparr>sent = chunks, closed = True, read_error = False\<rparr>)
     \<and> chunks = chunksOf (nat chunkSize) rows
     \<and> concat chunks = rows
     \<and> (\<forall>c \<in> set (butlast chunks). length c = nat chunkSize)
     \<and> (\<forall>c \<in> set chunks. 0 < length c \<and> length c \<le> nat chunkSize)
     \<and> readCSVChunk [h, Rec r1, Rec r2] 1 =
         Some (Inr \<lparr>sent = [[r1], [r2]], closed = True, read_error = False\<rparr>)"
proof -
  have n: "0 < nat chunkSize" using assms by simp
  have two: "chunksOf (nat 1) [r1, r2] = [[r1], [r2]]"
    by (simp add: chunksOf.simps)
  have "readCSVChunk [h, Rec r1, Rec r2] 1 =
         Some (Inr \<lparr>sent = [[r1], [r2]], closed = True, read_error = False\<rparr>)"
    using readCSVChunk_char[of 1 "[h, Rec r1, Rec r2]"] two by simp
  moreover have "readCSVChunk (h # map Rec rows) chunkSize =
         Some (Inr \<lparr>sent = chunksOf (nat chunkSize) rows, closed = True, read_error = False\<rparr>)"
    using readCSVChunk_char[OF assms, of "h # map Rec rows"] by simp
  ultimately show ?thesis
    using concat_chunksOf[OF n, of rows] chunksOf_butlast[of _ "nat chunkSize" rows]
      chunksOf_lengths[of _ "nat chunkSize" rows]
    by blast
qed

text \<open>The CSV of \<^verbatim>\<open>TestReadCSVChunk\<close>, with chunk size 1.\<close>

theorem readCSVChunk_emits_chunks_witness:
  "(0::int) < 1 \<and>
   readCSVChunk [Rec header, Rec john, Rec jane] 1 =
     Some (Inr \<lparr>sent = [[john], [jane]], closed = True, read_error = False\<rparr>)"
  using readCSVChunk_emits_chunks[of 1 "Rec header" "[john, jane]"]
  by (simp add: chunksOf.simps)

subsection \<open>A read error in the middle of the stream\<close>

text \<open>
  Claim C4. When a read after the header fails with an error, \<^verbatim>\<open>readCSVChunk\<close>
  prints the error, closes the channel and returns: only the full chunks sent before
  are on the channel, and neither the rows buffered for the next chunk nor anything
  after the error is sent. Had the stream ended at that point instead, the buffered
  rows would have been sent as a last, shorter chunk.
\<close>

theorem readCSVChunk_error_fails_fast:
  assumes "0 < chunkSize"
  shows "\<exists>whole.
       readCSVChunk (h # map Rec rows @ Err # rest) chunkSize =
         Some (Inr \<lparr>sent = whole, closed = True, read_error = True\<rparr>)
     \<and> whole = chunksOf (nat chunkSize) (whole_chunks_prefix (nat chunkSize) rows)
     \<and> concat whole = take (length rows - length rows mod nat chunkSize) rows
     \<and> (\<forall>c \<in> set whole. length c = nat chunkSize)
     \<and> readCSVChunk (h # map Rec rows) chunkSize =
         Some (Inr \<lparr>sent = whole @
                  (if length rows mod nat chunkSize = 0 then []
                   else [drop (length rows - length rows mod nat chunkSize) rows]),
               closed = True, read_error = False\<rparr>)"
proof -
  have n: "0 < nat chunkSize" using assms by simp
  have "readCSVChunk (h # map Rec rows @ Err # rest) chunkSize =
         Some (Inr \<lparr>sent = chunksOf (nat chunkSize) (whole_chunks_prefix (nat chunkSize) rows),
               closed = True, read_error = True\<rparr>)"
    using readCSVChunk_char[OF assms, of "h # map Rec rows @ Err # rest"] by simp
  moreover have "readCSVChunk (h # map Rec rows) chunkSize =
         Some (Inr \<lparr>sent = chunksOf (nat chunkSize) (whole_chunks_prefix (nat chunkSize) rows) @
                  (if length rows mod nat chunkSize = 0 then []
                   else [drop (length rows - length rows mod nat chunkSize) rows]),
               closed = True, read_error = False\<rparr>)"
    using readCSVChunk_char[OF assms, of "h # map Rec rows"]
      chunksOf_whole_partial[OF n, of rows] by simp
  moreover have "concat (chunksOf (nat chunkSize) (whole_chunks_prefix (nat chunkSize) rows)) =
      take (length rows - length rows mod nat chunkSize) rows"
    using concat_chunksOf[OF n, of "whole_chunks_prefix (nat chunkSize) rows"]
    by (simp add: whole_chunks_prefix_def)
  ultimately show ?thesis
    using whole_chunks_full[of _ "nat chunkSize" rows] by blast
qed

text \<open>Three rows and then an error, with chunk size 2: the third row is lost.\<close>

theorem readCSVChunk_error_fails_fast_witness:
  "(0::int) < 2 \<and>
   readCSVChunk [Rec header, Rec john, Rec jane, Rec john, Err, Rec jane] 2 =
     Some (Inr \<lparr>sent = [[john, jane]], closed = True, read_error = True\<rparr>) \<and>
   readCSVChunk [Rec header, Rec john, Rec jane, Rec john] 2 =
     Some (Inr \<lparr>sent = [[john, jane], [john]], closed = True, read_error = False\<rparr>)"
  using readCSVChunk_error_fails_fast[of 2 "Rec header" "[john, jane, john]" "[Rec jane]"]
  by (simp add: chunksOf.simps whole_chunks_prefix_def)

section \<open>The record parser and the batch writer\<close>

subsection \<open>Auxiliary facts\<close>

text \<open>On rows of at least eleven fields no index is out of range.\<close>

lemma parseRecord_wellformed:
  "10 < length r \<Longrightarrow> parseRecord atoi pf r =
     (if numeric_ok atoi pf r then Inr (Built (row_record atoi pf r))
      else Inr (Skipped (reject_reason atoi r)))"
  by (auto simp: parseRecord_def numeric_ok_def row_record_def reject_reason_def
           split: option.splits)

lemma parseRecords_wellformed:
  "\<forall>r \<in> set records. 10 < length r \<Longrightarrow>
   parseRecords atoi pf records us sk =
     Inr (us @ map (row_record atoi pf) (filter (numeric_ok atoi pf) records),
          sk @ map (\<lambda>r. (reject_reason atoi r, r))
                 (filter (\<lambda>r. \<not> numeric_ok atoi pf r) records))"
proof (induction records arbitrary: us sk)
  case Nil
  then show ?case by simp
next
  case (Cons r records)
  then show ?case by (simp add: parseRecord_wellformed)
qed

lemma processChunk_wellformed:
  assumes "\<forall>r \<in> set records. 10 < length r"
  shows "processChunk atoi pf records db bs =
     (let us = map (row_record atoi pf) (filter (numeric_ok atoi pf) records);
          sk = map (\<lambda>r. (reject_reason atoi r, r))
                 (filter (\<lambda>r. \<not> numeric_ok atoi pf r) records)
      in if us = [] then Inr \<lparr>users = [], skipped = sk, db_calls = [], insert_error = False\<rparr>
         else Inr \<lparr>users = us, skipped = sk, db_calls = [(us, bs)],
                   insert_error = (db us bs \<noteq> None)\<rparr>)"
  using parseRecords_wellformed[OF assms, of atoi pf "[]" "[]"]
  by (simp add: processChunk_def Let_def)

text \<open>
  Whatever the length of the rows, a chunk that is processed to the end has skipped
  exactly the rows whose age or salary does not parse and built the others.
\<close>

lemma parseRecord_returns:
  "parseRecord atoi pf r = Inr res \<Longrightarrow>
   res = (if numeric_ok atoi pf r then Built (row_record atoi pf r)
          else Skipped (reject_reason atoi r))"
  by (auto simp: parseRecord_def numeric_ok_def row_record_def reject_reason_def
           split: if_splits option.splits)

lemma parseRecords_returns:
  "parseRecords atoi pf records us sk = Inr (us', sk') \<Longrightarrow>
   us' = us @ map (row_record atoi pf) (filter (numeric_ok atoi pf) records) \<and>
   sk' = sk @ map (\<lambda>r. (reject_reason atoi r, r))
                (filter (\<lambda>r. \<not> numeric_ok atoi pf r) records)"
proof (induction records arbitrary: us sk)
  case Nil
  then show ?case by simp
next
  case (Cons r records)
  show ?case
  proof (cases "parseRecord atoi pf r")
    case (Inl p)
    with Cons.prems show ?thesis by simp
  next
    case (Inr res)
    note res = parseRecord_returns[OF Inr]
    show ?thesis
    proof (cases "numeric_ok atoi pf r")
      case True
      with res Inr Cons.prems
      have "parseRecords atoi pf records (us @ [row_record atoi pf r]) sk = Inr (us', sk')"
        by simp
      from Cons.IH[OF this] True show ?thesis by simp
    next
      case False
      with res Inr Cons.prems
      have "parseRecords atoi pf records us (sk @ [(reject_reason atoi r, r)]) = Inr (us', sk')"
        by simp
      from Cons.IH[OF this] False show ?thesis by simp
    qed
  qed
qed

lemma processChunk_returns:
  assumes "processChunk atoi pf records db bs = Inr out"
  shows "users out = map (row_record atoi pf) (filter (numeric_ok atoi pf) records)"
    and "skipped out = map (\<lambda>r. (reject_reason atoi r, r))
                         (filter (\<lambda>r. \<not> numeric_ok atoi pf r) records)"
    and "db_calls out = (if users out = [] then [] else [(users out, bs)])"
    and "insert_error out = (users out \<noteq> [] \<and> db (users out) bs \<noteq> None)"
proof -
  from assms obtain us sk where p: "parseRecords atoi pf records [] [] = Inr (us, sk)"
    by (auto simp: processChunk_def split: sum.splits prod.splits)
  with assms have out: "users out = us" "skipped out = sk"
    "db_calls out = (if us = [] then [] else [(us, bs)])"
    "insert_error out = (us \<noteq> [] \<and> db us bs \<noteq> None)"
    by (auto simp: processChunk_def split: if_splits)
  from parseRecords_returns[OF p] out
  show "users out = map (row_record atoi pf) (filter (numeric_ok atoi pf) records)"
    and "skipped out = map (\<lambda>r. (reject_reason atoi r, r))
                         (filter (\<lambda>r. \<not> numeric_ok atoi pf r) records)"
    and "db_calls out = (if users out = [] then [] else [(users out, bs)])"
    and "insert_error out = (users out \<noteq> [] \<and> db (users out) bs \<noteq> None)"
    by simp_all
qed

subsection \<open>Accounting\<close>

text \<open>
  Claim C2. For every chunk that \<^verbatim>\<open>processChunk\<close> processes to the end: the rows whose
  age or salary does not parse are skipped, each with its reason, and every other row
  gives exactly one \<^verbatim>\<open>UserData\<close>, in the order of the rows, so that the number of
  rows is the number skipped plus the number built. Every \<^verbatim>\<open>UserData\<close> carries the
  parsed age and salary of a row of the chunk, never a default; a skipped row does not
  stop the rows after it; the batch handed to \<^verbatim>\<open>CreateInBatches\<close> is the whole
  \<^verbatim>\<open>users\<close> slice. Every chunk whose rows have at least eleven fields is processed
  to the end.
\<close>

theorem processChunk_accounting:
  "(\<forall>out. processChunk atoi pf records db bs = Inr out \<longrightarrow>
       users out = map (row_record atoi pf) (filter (numeric_ok atoi pf) records)
     \<and> skipped out = map (\<lambda>r. (reject_reason atoi r, r))
                        (filter (\<lambda>r. \<not> numeric_ok atoi pf r) records)
     \<and> length records = length (skipped out) + length (users out)
     \<and> (\<forall>u \<in> set (users out). \<exists>r \<in> set records.
           atoi (r ! 4) = Some (Age u) \<and> pf (r ! 8) = Some (Salary u))
     \<and> db_calls out = (if users out = [] then [] else [(users out, bs)])
     \<and> insert_error out = (users out \<noteq> [] \<and> db (users out) bs \<noteq> None))
   \<and> ((\<forall>r \<in> set records. 10 < length r) \<longrightarrow>
        (\<exists>out. processChunk atoi pf records db bs = Inr out))"
proof (intro conjI allI impI)
  fix out
  assume out: "processChunk atoi pf records db bs = Inr out"
  note r = processChunk_returns[OF out]
  show us: "users out = map (row_record atoi pf) (filter (numeric_ok atoi pf) records)"
    by (rule r(1))
  show sk: "skipped out = map (\<lambda>r. (reject_reason atoi r, r))
                        (filter (\<lambda>r. \<not> numeric_ok atoi pf r) records)"
    by (rule r(2))
  show "db_calls out = (if users out = [] then [] else [(users out, bs)])"
    by (rule r(3))
  show "insert_error out = (users out \<noteq> [] \<and> db (users out) bs \<noteq> None)"
    by (rule r(4))
  show "length records = length (skipped out) + length (users out)"
    using sum_length_filter_compl[of "numeric_ok atoi pf" records] by (simp add: us sk)
  show "\<forall>u \<in> set (users out). \<exists>r \<in> set records.
           atoi (r ! 4) = Some (Age u) \<and> pf (r ! 8) = Some (Salary u)"
  proof
    fix u assume "u \<in> set (users out)"
    with us obtain r where r: "r \<in> set records" "numeric_ok atoi pf r"
      and u: "u = row_record atoi pf r" by auto
    from r(2) u have "atoi (r ! 4) = Some (Age u) \<and> pf (r ! 8) = Some (Salary u)"
      by (auto simp: numeric_ok_def row_record_def)
    with r(1) show "\<exists>r \<in> set records. atoi (r ! 4) = Some (Age u) \<and> pf (r ! 8) = Some (Salary u)"
      by blast
  qed
next
  assume "\<forall>r \<in> set records. 10 < length r"
  from processChunk_wellformed[OF this, of atoi pf db bs]
  show "\<exists>out. processChunk atoi pf records db bs = Inr out"
    by (simp add: Let_def split: if_splits)
qed

text \<open>The example rows, evaluated.\<close>

lemma example_rows:
  "numeric_ok decimal decimal john" "numeric_ok decimal decimal jane"
  "\<not> numeric_ok decimal decimal bad_salary" "\<not> numeric_ok decimal decimal bad_age"
  "numeric_ok decimal decimal nameless"
  "reject_reason decimal bad_salary = InvalidSalary" "reject_reason decimal bad_age = InvalidAge"
  by (simp_all add: numeric_ok_def reject_reason_def decimal_def john_def jane_def
        bad_salary_def bad_age_def nameless_def)

lemma example_records:
  "row_record decimal decimal john =
     \<lparr>ID = 0, FirstName = ''John'', LastName = ''Doe'', Email = ''john@example.com'',
      Age = 30, Gender = ''Male'', Department = ''IT'', Company = ''ExampleCorp'',
      Salary = 50000, DateJoined = ''2020-01-01'', IsActive = True\<rparr>"
  "row_record decimal decimal nameless =
     \<lparr>ID = 0, FirstName = [], LastName = [], Email = [],
      Age = 30, Gender = ''Male'', Department = ''IT'', Company = ''ExampleCorp'',
      Salary = 50000, DateJoined = ''2020-01-01'', IsActive = True\<rparr>"
  by (simp_all add: row_record_def decimal_def john_def nameless_def)

lemma example_lengths:
  "length john = 11" "length jane = 11" "length bad_salary = 11" "length bad_age = 11"
  "length nameless = 11" "length short_row = 3" "length short_header = 3"
  by (simp_all add: john_def jane_def bad_salary_def bad_age_def nameless_def
        short_row_def short_header_def)

text \<open>A valid row, a row with a bad salary and a row with a bad age.\<close>

theorem processChunk_accounting_witness:
  "10 < length john \<and> 10 < length bad_salary \<and> 10 < length bad_age \<and>
   processChunk decimal decimal [john, bad_salary, bad_age] mockDB 10000 =
     Inr \<lparr>users = [\<lparr>ID = 0, FirstName = ''John'', LastName = ''Doe'',
                    Email = ''john@example.com'', Age = 30, Gender = ''Male'',
                    Department = ''IT'', Company = ''ExampleCorp'', Salary = 50000,
                    DateJoined = ''2020-01-01'', IsActive = True\<rparr>],
          skipped = [(InvalidSalary, bad_salary), (InvalidAge, bad_age)],
          db_calls = [([\<lparr>ID = 0, FirstName = ''John'', LastName = ''Doe'',
                    Email = ''john@example.com'', Age = 30, Gender = ''Male'',
                    Department = ''IT'', Company = ''ExampleCorp'', Salary = 50000,
                    DateJoined = ''2020-01-01'', IsActive = True\<rparr>], 10000)],
          insert_error = False\<rparr>"
proof -
  have len: "\<forall>r \<in> set [john, bad_salary, bad_age]. 10 < length r"
    by (simp add: example_lengths)
  note acc = processChunk_accounting[of decimal decimal "[john, bad_salary, bad_age]" mockDB 10000]
  from acc len obtain out
    where out: "processChunk decimal decimal [john, bad_salary, bad_age] mockDB 10000 = Inr out"
    by blast
  with acc have "users out = [row_record decimal decimal john]"
    and "skipped out = [(InvalidSalary, bad_salary), (InvalidAge, bad_age)]"
    and "db_calls out = [([row_record decimal decimal john], 10000)]"
    and "insert_error out = False"
    by (auto simp: example_rows mockDB_def)
  with out show ?thesis by (cases out) (simp add: example_lengths example_records)
qed

text \<open>A chunk of one row.\<close>

lemma processChunk_single:
  assumes "10 < length r" and "numeric_ok atoi pf r"
  shows "processChunk atoi pf [r] db bs =
     Inr \<lparr>users = [row_record atoi pf r], skipped = [],
          db_calls = [([row_record atoi pf r], bs)],
          insert_error = (db [row_record atoi pf r] bs \<noteq> None)\<rparr>"
  using processChunk_wellformed[of "[r]" atoi pf db bs] assms by (simp add: Let_def)

lemma processChunk_single_rejected:
  assumes "10 < length r" and "\<not> numeric_ok atoi pf r"
  shows "processChunk atoi pf [r] db bs =
     Inr \<lparr>users = [], skipped = [(reject_reason atoi r, r)], db_calls = [],
          insert_error = False\<rparr>"
  using processChunk_wellformed[of "[r]" atoi pf db bs] assms by (simp add: Let_def)

subsection \<open>The boolean field\<close>

text \<open>
  Claim C3. Take a row of at least eleven fields and put any value \<open>v\<close> in the
  \<^verbatim>\<open>IsActive\<close> field. If age and salary parse, the row gives one \<^verbatim>\<open>UserData\<close> whose
  \<^verbatim>\<open>IsActive\<close> is true exactly when \<open>v\<close> is the string \<^verbatim>\<open>true\<close>, byte for byte; no
  value of \<open>v\<close> makes the row fail. If age or salary does not parse, the row is
  skipped for that reason, whatever \<open>v\<close> is.
\<close>

theorem isActive_iff_true_literal:
  assumes "10 < length r"
  shows "(numeric_ok atoi pf r \<longrightarrow>
           (\<exists>u. processChunk atoi pf [r[10 := v]] db bs =
                  Inr \<lparr>users = [u], skipped = [], db_calls = [([u], bs)],
                       insert_error = (db [u] bs \<noteq> None)\<rparr>
              \<and> IsActive u = (v = ''true'')))
       \<and> (\<not> numeric_ok atoi pf r \<longrightarrow>
            processChunk atoi pf [r[10 := v]] db bs =
              Inr \<lparr>users = [], skipped = [(reject_reason atoi r, r[10 := v])], db_calls = [],
                   insert_error = False\<rparr>)"
proof -
  have len: "10 < length (r[10 := v])" using assms by simp
  have ok: "numeric_ok atoi pf (r[10 := v]) = numeric_ok atoi pf r"
    by (simp add: numeric_ok_def)
  have why: "reject_reason atoi (r[10 := v]) = reject_reason atoi r"
    by (simp add: reject_reason_def)
  have "IsActive (row_record atoi pf (r[10 := v])) = (v = ''true'')"
    using assms by (simp add: row_record_def)
  with processChunk_single[OF len, of atoi pf db bs]
    processChunk_single_rejected[OF len, of atoi pf db bs] ok why
  show ?thesis by auto
qed

text \<open>\<^verbatim>\<open>true\<close>, \<^verbatim>\<open>True\<close>, \<^verbatim>\<open>1\<close> and the empty string in a valid row, and \<^verbatim>\<open>true\<close> in a row with a bad age.\<close>

theorem isActive_iff_true_literal_witness:
  "10 < length john \<and> numeric_ok decimal decimal john \<and>
   map_sum id (map IsActive \<circ> users)
     (processChunk decimal decimal [john[10 := ''true'']] mockDB 10000) = Inr [True] \<and>
   map_sum id (map IsActive \<circ> users)
     (processChunk decimal decimal [john[10 := ''True'']] mockDB 10000) = Inr [False] \<and>
   map_sum id (map IsActive \<circ> users)
     (processChunk decimal decimal [john[10 := ''1'']] mockDB 10000) = Inr [False] \<and>
   map_sum id (map IsActive \<circ> users)
     (processChunk decimal decimal [john[10 := []]] mockDB 10000) = Inr [False] \<and>
   10 < length bad_age \<and> \<not> numeric_ok decimal decimal bad_age \<and>
   processChunk decimal decimal [bad_age[10 := ''true'']] mockDB 10000 =
     Inr \<lparr>users = [], skipped = [(InvalidAge, bad_age[10 := ''true''])], db_calls = [],
          insert_error = False\<rparr>"
proof -
  have h: "10 < length john" "10 < length bad_age"
    by (simp_all add: example_lengths)
  show ?thesis
    using isActive_iff_true_literal[OF h(1), of decimal decimal "''true''" mockDB 10000]
      isActive_iff_true_literal[OF h(1), of decimal decimal "''True''" mockDB 10000]
      isActive_iff_true_literal[OF h(1), of decimal decimal "''1''" mockDB 10000]
      isActive_iff_true_literal[OF h(1), of decimal decimal "[]" mockDB 10000]
      isActive_iff_true_literal[OF h(2), of decimal decimal "''true''" mockDB 10000] h
    by (auto simp: example_rows)
qed

subsection \<open>Rows with too few fields\<close>

text \<open>
  Claim C5. The claim asks that a row of fewer than eleven fields be rejected and
  \<^verbatim>\<open>processChunk\<close> return normally. The code indexes \<^verbatim>\<open>record[4]\<close> without looking at
  the length: on the row \<^verbatim>\<open>1,John,Doe\<close> (a CSV of three columns, which the CSV reader
  accepts since the header has three fields too) \<^verbatim>\<open>processChunk\<close> panics with
  \<^verbatim>\<open>index out of range [4] with length 3\<close>, and \<^verbatim>\<open>uploadCSV\<close> ends with that panic
  instead of a response.
\<close>

theorem short_row_panics:
  "processChunk decimal decimal [short_row] mockDB 10000 = Inl (IndexOutOfRange 4 3) \<and>
   uploadCSV decimal decimal (File [Rec short_header, Rec short_row]) mockDB =
     Some (Inl (IndexOutOfRange 4 3))"
  by (simp add: uploadCSV_def readCSVChunk_char chunksOf.simps processChunk_def
      parseRecord_def example_lengths)

text \<open>
  In general a row of at most four fields at the head of a chunk panics at once, and
  fields after the eleventh are never read.
\<close>

lemma row_too_short:
  "length r \<le> 4 \<Longrightarrow> processChunk atoi pf (r # rest) db bs = Inl (IndexOutOfRange 4 (length r))"
  by (simp add: processChunk_def parseRecord_def)

lemma extra_fields_ignored:
  "10 < length r \<Longrightarrow> parseRecord atoi pf (r @ extra) = parseRecord atoi pf r"
  by (simp add: parseRecord_wellformed numeric_ok_def row_record_def reject_reason_def nth_append)

subsection \<open>Identifying fields\<close>

text \<open>
  Claim C6, as stated, fails: a row whose first name, last name and email are empty
  and whose age and salary parse is not rejected. A \<^verbatim>\<open>UserData\<close> with the three empty
  strings is built and handed to \<^verbatim>\<open>CreateInBatches\<close>.
\<close>

theorem empty_identity_counterexample:
  "processChunk decimal decimal [nameless] mockDB 10000 =
     Inr \<lparr>users = [\<lparr>ID = 0, FirstName = [], LastName = [], Email = [],
                    Age = 30, Gender = ''Male'', Department = ''IT'', Company = ''ExampleCorp'',
                    Salary = 50000, DateJoined = ''2020-01-01'', IsActive = True\<rparr>],
          skipped = [],
          db_calls = [([\<lparr>ID = 0, FirstName = [], LastName = [], Email = [],
                    Age = 30, Gender = ''Male'', Department = ''IT'', Company = ''ExampleCorp'',
                    Salary = 50000, DateJoined = ''2020-01-01'', IsActive = True\<rparr>], 10000)],
          insert_error = False\<rparr>"
  by (simp add: processChunk_single example_lengths example_rows example_records mockDB_def)

text \<open>
  Claim C6, amended. A row of at least eleven fields is rejected exactly when its age
  or its salary does not parse. Otherwise one \<^verbatim>\<open>UserData\<close> is built and handed to
  \<^verbatim>\<open>CreateInBatches\<close>, with first name, last name and email copied from fields 1, 2
  and 3 as they are, empty or not.
\<close>

theorem identity_fields_copied:
  assumes "10 < length r"
  shows "(numeric_ok atoi pf r \<longrightarrow>
           (\<exists>u. processChunk atoi pf [r] db bs =
                  Inr \<lparr>users = [u], skipped = [], db_calls = [([u], bs)],
                       insert_error = (db [u] bs \<noteq> None)\<rparr>
              \<and> FirstName u = r ! 1 \<and> LastName u = r ! 2 \<and> Email u = r ! 3))
       \<and> (\<not> numeric_ok atoi pf r \<longrightarrow>
            processChunk atoi pf [r] db bs =
              Inr \<lparr>users = [], skipped = [(reject_reason atoi r, r)], db_calls = [],
                   insert_error = False\<rparr>)"
proof -
  have "FirstName (row_record atoi pf r) = r ! 1 \<and> LastName (row_record atoi pf r) = r ! 2
      \<and> Email (row_record atoi pf r) = r ! 3"
    by (simp add: row_record_def)
  with processChunk_single[OF assms, of atoi pf db bs]
    processChunk_single_rejected[OF assms, of atoi pf db bs]
  show ?thesis by blast
qed

text \<open>The row with empty identifying fields is built; the row with a bad age is rejected.\<close>

theorem identity_fields_copied_witness:
  "10 < length nameless \<and> numeric_ok decimal decimal nameless \<and>
   map_sum id (map (\<lambda>u. (FirstName u, LastName u, Email u)) \<circ> users)
     (processChunk decimal decimal [nameless] mockDB 10000) = Inr [([], [], [])] \<and>
   10 < length bad_age \<and> \<not> numeric_ok decimal decimal bad_age \<and>
   processChunk decimal decimal [bad_age] mockDB 10000 =
     Inr \<lparr>users = [], skipped = [(InvalidAge, bad_age)], db_calls = [], insert_error = False\<rparr>"
proof -
  have h: "10 < length nameless" "10 < length bad_age"
    by (simp_all add: example_lengths)
  have n: "nameless ! 1 = []" "nameless ! 2 = []" "nameless ! 3 = []"
    by (simp_all add: nameless_def)
  show ?thesis
    using identity_fields_copied[OF h(1), of decimal decimal mockDB 10000]
      identity_fields_copied[OF h(2), of decimal decimal mockDB 10000] h n
    by (auto simp: example_rows)
qed

subsection \<open>The empty batch\<close>

text \<open>
  Claim C7. Whenever \<^verbatim>\<open>processChunk\<close> ends with an empty \<^verbatim>\<open>users\<close> slice it has not
  called \<^verbatim>\<open>CreateInBatches\<close> (and has printed no insertion error); in particular a
  chunk of rows that are all rejected is processed to the end, every row skipped,
  without any call.
\<close>

theorem no_insert_for_empty_batch:
  "(\<forall>out. processChunk atoi pf records db bs = Inr out \<longrightarrow> users out = [] \<longrightarrow>
          db_calls out = [] \<and> \<not> insert_error out)
   \<and> ((\<forall>r \<in> set records. 10 < length r \<and> \<not> numeric_ok atoi pf r) \<longrightarrow>
        processChunk atoi pf records db bs =
          Inr \<lparr>users = [], skipped = map (\<lambda>r. (reject_reason atoi r, r)) records,
               db_calls = [], insert_error = False\<rparr>)"
proof (intro conjI allI impI)
  fix out
  assume "processChunk atoi pf records db bs = Inr out" and "users out = []"
  then show "db_calls out = []" and "\<not> insert_error out"
    by (auto simp: processChunk_def split: sum.splits prod.splits if_splits)
next
  assume a: "\<forall>r \<in> set records. 10 < length r \<and> \<not> numeric_ok atoi pf r"
  then have len: "\<forall>r \<in> set records. 10 < length r" by blast
  from a have "filter (numeric_ok atoi pf) records = []"
    and "filter (\<lambda>r. \<not> numeric_ok atoi pf r) records = records"
    by (simp_all add: filter_empty_conv filter_id_conv)
  with processChunk_wellformed[OF len, of atoi pf db bs]
  show "processChunk atoi pf records db bs =
          Inr \<lparr>users = [], skipped = map (\<lambda>r. (reject_reason atoi r, r)) records,
               db_calls = [], insert_error = False\<rparr>"
    by (simp add: Let_def)
qed

text \<open>A chunk of two rejected rows.\<close>

theorem no_insert_for_empty_batch_witness:
  "10 < length bad_age \<and> \<not> numeric_ok decimal decimal bad_age \<and>
   10 < length bad_salary \<and> \<not> numeric_ok decimal decimal bad_salary \<and>
   processChunk decimal decimal [bad_age, bad_salary] mockDB 10000 =
     Inr \<lparr>users = [], skipped = [(InvalidAge, bad_age), (InvalidSalary, bad_salary)],
          db_calls = [], insert_error = False\<rparr>"
  using no_insert_for_empty_batch[of decimal decimal "[bad_age, bad_salary]" mockDB 10000]
  by (simp add: example_rows example_lengths)

section \<open>The upload handler\<close>

subsection \<open>Auxiliary facts\<close>





subsection \<open>The response\<close>




subsection \<open>Empty input\<close>

text \<open>
  Claim C10. For an empty stream, and for a stream of one read result only (the header,
  or a failed read of it), \<^verbatim>\<open>readCSVChunk\<close> sends no chunk, prints no error and closes
  the channel, and \<^verbatim>\<open>uploadCSV\<close> answers 200 with the success message, no worker
  having run.
\<close>

theorem empty_stream_succeeds:
  assumes "0 < chunkSize"
  shows "readCSVChunk [] chunkSize = Some (Inr \<lparr>sent = [], closed = True, read_error = False\<rparr>)
       \<and> readCSVChunk [h] chunkSize = Some (Inr \<lparr>sent = [], closed = True, read_error = False\<rparr>)
       \<and> uploadCSV atoi pf (File []) db =
           Some (Inr \<lparr>reply = success_reply,
                      reader = Some \<lparr>sent = [], closed = True, read_error = False\<rparr>,
                      workers = []\<rparr>)
       \<and> uploadCSV atoi pf (File [h]) db =
           Some (Inr \<lparr>reply = success_reply,
                      reader = Some \<lparr>sent = [], closed = True, read_error = False\<rparr>,
                      workers = []\<rparr>)"
  using assms by (simp add: uploadCSV_def readCSVChunk_char success_reply_def)

text \<open>The chunk size of \<^verbatim>\<open>uploadCSV\<close>, with a failed header read and with a header alone.\<close>

theorem empty_stream_succeeds_witness:
  "(0::int) < 5000 \<and>
   readCSVChunk [] 5000 = Some (Inr \<lparr>sent = [], closed = True, read_error = False\<rparr>) \<and>
   readCSVChunk [Err] 5000 = Some (Inr \<lparr>sent = [], closed = True, read_error = False\<rparr>) \<and>
   readCSVChunk [Rec header] 5000 = Some (Inr \<lparr>sent = [], closed = True, read_error = False\<rparr>) \<and>
   map_option (map_sum id reply) (uploadCSV decimal decimal (File [Rec header]) mockDB) =
     Some (Inr \<lparr>status = 200,
                body = [(''message'',
                         ''CSV file processed successfully and data stored in database.'')]\<rparr>)"
  using empty_stream_succeeds[of 5000 Err decimal decimal mockDB]
    empty_stream_succeeds[of 5000 "Rec header" decimal decimal mockDB]
  by (simp add: success_reply_def)

end
